theory Spec2Isabelle
  imports Complex_Main "HOL-Library.Log_Nat" "HOL-Library.Word"
begin

section \<open>JavaScript numbers\<close>

text \<open>
  A JavaScript number is an IEEE 754 double: a finite value, \<^verbatim>\<open>NaN\<close>, \<^verbatim>\<open>Infinity\<close> or
  \<^verbatim>\<open>-Infinity\<close>. A finite double is represented by the real number it denotes (the two
  zeros are not told apart).
\<close>

datatype number = Num real | NaN | PosInfinity | NegInfinity

subsection \<open>Rounding to the nearest double\<close>

text \<open>
  The binary exponent of a real \<open>x \<noteq> 0\<close> is the integer \<open>e\<close> with
  \<open>2 powi e \<le> \<bar>x\<bar> < 2 powi (e + 1)\<close>, computed from the bit length of the integer part
  of \<open>\<bar>x\<bar>\<close>, or of \<open>1 / \<bar>x\<bar>\<close> when \<open>\<bar>x\<bar> < 1\<close> (lemma \<open>binary_exponent_bounds\<close> below).
\<close>

definition binary_exponent :: "real \<Rightarrow> int" where
  "binary_exponent x =
     (if 1 \<le> \<bar>x\<bar> then bitlen \<lfloor>\<bar>x\<bar>\<rfloor> - 1 else - bitlen (\<lceil>1 / \<bar>x\<bar>\<rceil> - 1))"

text \<open>The nearest integer, a tie going to the even one.\<close>

definition round_half_even :: "real \<Rightarrow> int" where
  "round_half_even m =
     (let f = \<lfloor>m\<rfloor>
      in if m - of_int f < 1 / 2 then f
         else if 1 / 2 < m - of_int f then f + 1
         else if even f then f else f + 1)"

text \<open>
  The double nearest to a real (round to nearest, ties to even): a double has 53
  significant bits, so the spacing of the doubles around \<open>x\<close> is \<open>2 powi q\<close> with
  \<open>q = e - 52\<close>, and \<open>q = -1074\<close> throughout the subnormal range \<open>e < -1022\<close>; a result
  of magnitude \<open>2 ^ 1024\<close> or more overflows to an infinity.
\<close>

definition fl :: "real \<Rightarrow> number" where
  "fl x =
     (if x = 0 then Num 0
      else
        (let q = max (binary_exponent x) (- 1022) - 52;
             r = of_int (round_half_even (x / 2 powi q)) * 2 powi q
         in if 2 ^ 1024 \<le> r then PosInfinity
            else if r \<le> - (2 ^ 1024) then NegInfinity
            else Num r))"

text \<open>\<^verbatim>\<open>x + y\<close> and \<^verbatim>\<open>x * y\<close>: the exact result, rounded.\<close>

fun js_add :: "number \<Rightarrow> number \<Rightarrow> number" where
  "js_add (Num a) (Num b) = fl (a + b)"
| "js_add NaN y = NaN"
| "js_add x NaN = NaN"
| "js_add PosInfinity NegInfinity = NaN"
| "js_add NegInfinity PosInfinity = NaN"
| "js_add PosInfinity y = PosInfinity"
| "js_add x PosInfinity = PosInfinity"
| "js_add NegInfinity y = NegInfinity"
| "js_add x NegInfinity = NegInfinity"

fun js_mul :: "number \<Rightarrow> number \<Rightarrow> number" where
  "js_mul (Num a) (Num b) = fl (a * b)"
| "js_mul NaN y = NaN"
| "js_mul x NaN = NaN"
| "js_mul PosInfinity (Num b) =
     (if 0 < b then PosInfinity else if b < 0 then NegInfinity else NaN)"
| "js_mul NegInfinity (Num b) =
     (if 0 < b then NegInfinity else if b < 0 then PosInfinity else NaN)"
| "js_mul (Num a) PosInfinity =
     (if 0 < a then PosInfinity else if a < 0 then NegInfinity else NaN)"
| "js_mul (Num a) NegInfinity =
     (if 0 < a then NegInfinity else if a < 0 then PosInfinity else NaN)"
| "js_mul PosInfinity PosInfinity = PosInfinity"
| "js_mul PosInfinity NegInfinity = NegInfinity"
| "js_mul NegInfinity PosInfinity = NegInfinity"
| "js_mul NegInfinity NegInfinity = PosInfinity"

text \<open>\<^verbatim>\<open>x >= y\<close> and \<^verbatim>\<open>x < y\<close>: false whenever an operand is \<^verbatim>\<open>NaN\<close>.\<close>

fun js_ge :: "number \<Rightarrow> number \<Rightarrow> bool" where
  "js_ge (Num a) (Num b) = (b \<le> a)"
| "js_ge (Num a) NegInfinity = True"
| "js_ge PosInfinity (Num b) = True"
| "js_ge PosInfinity PosInfinity = True"
| "js_ge PosInfinity NegInfinity = True"
| "js_ge NegInfinity NegInfinity = True"
| "js_ge x y = False"

fun js_lt :: "number \<Rightarrow> number \<Rightarrow> bool" where
  "js_lt (Num a) (Num b) = (a < b)"
| "js_lt (Num a) PosInfinity = True"
| "js_lt NegInfinity (Num b) = True"
| "js_lt NegInfinity PosInfinity = True"
| "js_lt x y = False"

subsection \<open>The scroll progress\<close>

text \<open>
  The quotient and the product of \<^verbatim>\<open>updateScrollProgress\<close> are taken on finite operands
  and kept exact: rounding them moves the percentage in its last bits only and, being
  monotone, changes neither its bounds nor its order. What the division needs beyond
  the finite numbers are the special values for a zero divisor.
\<close>

text \<open>
  \<^verbatim>\<open>a / b\<close> on finite operands. A zero divisor is the positive zero: the only divisor of
  the program is a difference of two finite numbers, which is never the negative zero.
\<close>

definition js_div :: "real \<Rightarrow> real \<Rightarrow> number" where
  "js_div a b =
     (if b \<noteq> 0 then Num (a / b)
      else if a = 0 then NaN
      else if 0 < a then PosInfinity
      else NegInfinity)"

text \<open>\<^verbatim>\<open>x * c\<close> for a finite \<open>c\<close>.\<close>

fun js_times :: "number \<Rightarrow> real \<Rightarrow> number" where
  "js_times (Num a) c = Num (a * c)"
| "js_times NaN c = NaN"
| "js_times PosInfinity c =
     (if 0 < c then PosInfinity else if c < 0 then NegInfinity else NaN)"
| "js_times NegInfinity c =
     (if 0 < c then NegInfinity else if c < 0 then PosInfinity else NaN)"

text \<open>\<^verbatim>\<open>Math.min(x, c)\<close> for a finite \<open>c\<close>: \<^verbatim>\<open>NaN\<close> if an argument is \<^verbatim>\<open>NaN\<close>.\<close>

fun Math_min :: "number \<Rightarrow> real \<Rightarrow> number" where
  "Math_min (Num a) c = Num (min a c)"
| "Math_min NaN c = NaN"
| "Math_min PosInfinity c = Num c"
| "Math_min NegInfinity c = NegInfinity"

text \<open>\<^verbatim>\<open>String(n)\<close> for an integer \<open>n\<close>: its decimal digits.\<close>

fun decimal :: "nat \<Rightarrow> string" where
  "decimal n =
     (if n < 10 then [char_of (48 + n)]
      else decimal (n div 10) @ [char_of (48 + n mod 10)])"

declare decimal.simps [simp del]

definition js_String :: "int \<Rightarrow> string" where
  "js_String i = (if i < 0 then CHR ''-'' # decimal (nat (- i)) else decimal (nat i))"

section \<open>The page\<close>

text \<open>
  A \<^verbatim>\<open>.slide\<close> element: the two layout attributes the program reads. Both are
  attributes of type \<^verbatim>\<open>long\<close>, a signed 32-bit integer, read with \<open>sint\<close>.
\<close>

record slide =
  offsetTop :: "32 word"
  offsetHeight :: "32 word"

text \<open>
  The value assigned to \<^verbatim>\<open>style.width\<close> of the progress bar is the template
  \<^verbatim>\<open>`${x}%`\<close>, kept as \<open>Percent x\<close>; \<open>Unset\<close> is the inline style before any
  assignment.
\<close>

datatype css_width = Unset | Percent number

record progress_bar =
  style_width :: css_width

record counter =
  textContent :: string

record button =
  disabled :: bool

text \<open>
  A call \<^verbatim>\<open>slides[i].scrollIntoView({ behavior, block })\<close>: an element of the slide
  sequence is identified by the index \<open>i\<close> it was read at.
\<close>

datatype behavior = Auto | Instant | Smooth
datatype block = Start | Center | End | Nearest
datatype scroll_call = ScrollIntoView (target: int) behavior block

text \<open>The two closures passed to \<^verbatim>\<open>requestAnimationFrame\<close>.\<close>

datatype callback = SlideManagerFrame | SlideNavigationFrame

datatype error = TypeError

text \<open>
  The state the program reads and writes: the fields of \<^verbatim>\<open>SlideManager\<close> and
  \<^verbatim>\<open>SlideNavigation\<close> (an optional element is \<open>None\<close> when the query found nothing),
  the scroll state of the window, the \<^verbatim>\<open>scrollIntoView\<close> calls issued so far and the
  browser's list of pending animation-frame callbacks.
\<close>

record page =
  slides :: "slide list"
  scrollProgress :: "progress_bar option"
  currentSlideElement :: "counter option"
  currentSlide :: int
  upButton :: "button option"
  downButton :: "button option"
  pageYOffset :: real
  innerHeight :: real
  scrollHeight :: real
  scrollCalls :: "scroll_call list"
  frameCallbacks :: "callback list"

record keyboard_event =
  key :: string
  defaultPrevented :: bool

section \<open>SlideManager\<close>

definition updateScrollProgress :: "page \<Rightarrow> page" where
  "updateScrollProgress st =
     (let windowHeight = innerHeight st;
          documentHeight = scrollHeight st - windowHeight;
          scrollTop = pageYOffset st;
          progress = js_times (js_div scrollTop documentHeight) 100
      in case scrollProgress st of
           Some bar \<Rightarrow>
             st\<lparr>scrollProgress := Some (bar\<lparr>style_width := Percent (Math_min progress 100)\<rparr>)\<rparr>
         | None \<Rightarrow> st)"

definition updateSlideCounter :: "page \<Rightarrow> page" where
  "updateSlideCounter st =
     (case currentSlideElement st of
        Some el \<Rightarrow>
          st\<lparr>currentSlideElement := Some (el\<lparr>textContent := js_String (currentSlide st)\<rparr>)\<rparr>
      | None \<Rightarrow> st)"

text \<open>
  The \<^verbatim>\<open>forEach\<close> of \<^verbatim>\<open>updateCurrentSlide\<close>: the callback runs on every slide in
  order, \<open>index\<close> counting from 0, and mutates \<^verbatim>\<open>this.currentSlide\<close> and the counter.
\<close>

fun updateCurrentSlide_forEach :: "number \<Rightarrow> slide list \<Rightarrow> int \<Rightarrow> page \<Rightarrow> page" where
  "updateCurrentSlide_forEach scrollPosition [] index st = st"
| "updateCurrentSlide_forEach scrollPosition (slide # rest) index st =
     (let slideTop = Num (of_int (sint (offsetTop slide)));
          slideBottom = js_add slideTop (Num (of_int (sint (offsetHeight slide))))
      in if js_ge scrollPosition slideTop \<and> js_lt scrollPosition slideBottom then
           (let newSlide = index + 1
            in if newSlide \<noteq> currentSlide st then
                 updateCurrentSlide_forEach scrollPosition rest (index + 1)
                   (updateSlideCounter (st\<lparr>currentSlide := newSlide\<rparr>))
               else updateCurrentSlide_forEach scrollPosition rest (index + 1) st)
         else updateCurrentSlide_forEach scrollPosition rest (index + 1) st)"

definition updateCurrentSlide :: "page \<Rightarrow> page" where
  "updateCurrentSlide st =
     (let scrollPosition = js_add (Num (pageYOffset st)) (js_mul (Num (innerHeight st)) (Num 0.5))
      in updateCurrentSlide_forEach scrollPosition (slides st) 0 st)"

text \<open>
  \<^verbatim>\<open>this.slides[slideIndex]\<close>: \<^verbatim>\<open>undefined\<close> (here \<open>None\<close>) outside the sequence.
\<close>

definition js_index :: "'a list \<Rightarrow> int \<Rightarrow> 'a option" where
  "js_index xs i = (if 0 \<le> i \<and> i < int (length xs) then Some (xs ! nat i) else None)"

text \<open>
  \<^verbatim>\<open>goToSlide\<close>: calling \<^verbatim>\<open>scrollIntoView\<close> on \<^verbatim>\<open>undefined\<close> would throw a
  \<^verbatim>\<open>TypeError\<close>.
\<close>

definition goToSlide :: "page \<Rightarrow> int \<Rightarrow> error + page" where
  "goToSlide st slideIndex =
     (if slideIndex \<ge> 0 \<and> slideIndex < int (length (slides st)) then
        (case js_index (slides st) slideIndex of
           None \<Rightarrow> Inl TypeError
         | Some el \<Rightarrow>
             Inr (st\<lparr>scrollCalls := scrollCalls st @ [ScrollIntoView slideIndex Smooth Start]\<rparr>))
      else Inr st)"

text \<open>The \<^verbatim>\<open>forEach\<close> of \<^verbatim>\<open>getCurrentSlideIndex\<close>, threading \<^verbatim>\<open>currentIndex\<close>.\<close>

fun getCurrentSlideIndex_forEach :: "number \<Rightarrow> slide list \<Rightarrow> int \<Rightarrow> int \<Rightarrow> int" where
  "getCurrentSlideIndex_forEach scrollPosition [] index currentIndex = currentIndex"
| "getCurrentSlideIndex_forEach scrollPosition (slide # rest) index currentIndex =
     (let slideTop = Num (of_int (sint (offsetTop slide)));
          slideBottom = js_add slideTop (Num (of_int (sint (offsetHeight slide))))
      in if js_ge scrollPosition slideTop \<and> js_lt scrollPosition slideBottom then
           getCurrentSlideIndex_forEach scrollPosition rest (index + 1) index
         else getCurrentSlideIndex_forEach scrollPosition rest (index + 1) currentIndex)"

definition getCurrentSlideIndex :: "page \<Rightarrow> int" where
  "getCurrentSlideIndex st =
     (let scrollPosition = js_add (Num (pageYOffset st)) (js_mul (Num (innerHeight st)) (Num 0.5))
      in getCurrentSlideIndex_forEach scrollPosition (slides st) 0 0)"

section \<open>SlideNavigation\<close>

definition navigateUp :: "page \<Rightarrow> error + page" where
  "navigateUp st =
     (let currentIndex = getCurrentSlideIndex st;
          targetIndex = max (currentIndex - 1) 0
      in goToSlide st targetIndex)"

definition navigateDown :: "page \<Rightarrow> error + page" where
  "navigateDown st =
     (let currentIndex = getCurrentSlideIndex st;
          totalSlides = int (length (slides st));
          targetIndex = min (currentIndex + 1) (totalSlides - 1)
      in goToSlide st targetIndex)"

text \<open>
  \<^verbatim>\<open>updateButtonStates\<close> is only ever called when both buttons exist
  (\<^verbatim>\<open>SlideNavigation.init\<close> returns before registering anything otherwise); writing
  \<^verbatim>\<open>disabled\<close> on a missing button would throw.
\<close>

definition updateButtonStates :: "page \<Rightarrow> error + page" where
  "updateButtonStates st =
     (let currentIndex = getCurrentSlideIndex st;
          totalSlides = int (length (slides st))
      in case (upButton st, downButton st) of
           (Some up, Some down) \<Rightarrow>
             Inr (st\<lparr>upButton := Some (up\<lparr>disabled := (currentIndex = 0)\<rparr>),
                     downButton := Some (down\<lparr>disabled := (currentIndex = totalSlides - 1)\<rparr>)\<rparr>)
         | _ \<Rightarrow> Inl TypeError)"

section \<open>KeyboardNavigation\<close>

definition preventDefault :: "keyboard_event \<Rightarrow> keyboard_event" where
  "preventDefault e = e\<lparr>defaultPrevented := True\<rparr>"

definition handleKeydown :: "page \<Rightarrow> keyboard_event \<Rightarrow> error + (keyboard_event \<times> page)" where
  "handleKeydown st e =
     (let currentIndex = getCurrentSlideIndex st;
          totalSlides = int (length (slides st));
          go = (\<lambda>e' targetIndex.
                  case goToSlide st targetIndex of
                    Inl err \<Rightarrow> Inl err
                  | Inr st' \<Rightarrow> Inr (e', st'))
      in if key e = ''ArrowDown'' \<or> key e = ''PageDown'' then
           go (preventDefault e) (min (currentIndex + 1) (totalSlides - 1))
         else if key e = ''ArrowUp'' \<or> key e = ''PageUp'' then
           go (preventDefault e) (max (currentIndex - 1) 0)
         else if key e = ''Home'' then
           go (preventDefault e) 0
         else if key e = ''End'' then
           go (preventDefault e) (totalSlides - 1)
         else Inr (e, st))"

section \<open>Scroll notifications and animation frames\<close>

text \<open>
  \<^verbatim>\<open>requestAnimationFrame(cb)\<close> appends \<open>cb\<close> to the browser's list of animation-frame
  callbacks; the next frame runs every callback of the list, in order, and empties it.
\<close>

definition requestAnimationFrame :: "callback \<Rightarrow> page \<Rightarrow> page" where
  "requestAnimationFrame cb st = st\<lparr>frameCallbacks := frameCallbacks st @ [cb]\<rparr>"

text \<open>
  A scroll notification runs the registered listeners in the order of registration:
  the one of \<^verbatim>\<open>SlideManager.init\<close>, then the one of \<^verbatim>\<open>SlideNavigation.init\<close>, which
  is registered only when both buttons exist. (\<^verbatim>\<open>HeaderManager\<close> touches none of the
  state modelled here.)
\<close>

definition scroll_listeners :: "page \<Rightarrow> page" where
  "scroll_listeners st =
     (let st1 = requestAnimationFrame SlideManagerFrame st
      in if upButton st1 = None \<or> downButton st1 = None then st1
         else requestAnimationFrame SlideNavigationFrame st1)"

fun run_callback :: "callback \<Rightarrow> page \<Rightarrow> error + page" where
  "run_callback SlideManagerFrame st = Inr (updateCurrentSlide (updateScrollProgress st))"
| "run_callback SlideNavigationFrame st = updateButtonStates st"

fun run_callbacks :: "callback list \<Rightarrow> page \<Rightarrow> error + page" where
  "run_callbacks [] st = Inr st"
| "run_callbacks (cb # cbs) st =
     (case run_callback cb st of
        Inl err \<Rightarrow> Inl err
      | Inr st' \<Rightarrow> run_callbacks cbs st')"

definition animation_frame :: "page \<Rightarrow> error + page" where
  "animation_frame st = run_callbacks (frameCallbacks st) (st\<lparr>frameCallbacks := []\<rparr>)"

section \<open>Vocabulary of the specification\<close>

text \<open>
  The focus point of a scroll state is \<open>scrollOffset + 0.5 \<times> viewportHeight\<close>, a
  JavaScript number: the sum and the product are those of the language.
\<close>

definition focus_point :: "page \<Rightarrow> number" where
  "focus_point st = js_add (Num (pageYOffset st)) (js_mul (Num 0.5) (Num (innerHeight st)))"

text \<open>
  A slide covers the half-open range from its top to its top plus its height, top and
  height being integers; only a finite number can lie inside it.
\<close>

definition slide_contains :: "slide \<Rightarrow> number \<Rightarrow> bool" where
  "slide_contains s p =
     (case p of
        Num v \<Rightarrow>
          of_int (sint (offsetTop s)) \<le> v \<and>
          v < of_int (sint (offsetTop s) + sint (offsetHeight s))
      | NaN \<Rightarrow> False
      | PosInfinity \<Rightarrow> False
      | NegInfinity \<Rightarrow> False)"

text \<open>
  The slide sequence of the data model: regions stacked vertically in document order.
  Every slide has a positive height and begins at or below the bottom of the slide
  before it.
\<close>

fun stacked :: "slide list \<Rightarrow> bool" where
  "stacked [] = True"
| "stacked [s] = (0 < sint (offsetHeight s))"
| "stacked (s # t # rest) =
     (0 < sint (offsetHeight s) \<and>
      sint (offsetTop s) + sint (offsetHeight s) \<le> sint (offsetTop t) \<and>
      stacked (t # rest))"

text \<open>
  A navigation control pressed once per element of a list of scroll states (scroll
  offset, viewport height, scroll height): before each press the browser has moved the
  window to the next scroll state of the list.
\<close>

fun repeated ::
  "(page \<Rightarrow> error + page) \<Rightarrow> (real \<times> real \<times> real) list \<Rightarrow> page \<Rightarrow> error + page" where
  "repeated nav [] st = Inr st"
| "repeated nav ((y, h, H) # ys) st =
     (case nav (st\<lparr>pageYOffset := y, innerHeight := h, scrollHeight := H\<rparr>) of
        Inl err \<Rightarrow> Inl err
      | Inr st' \<Rightarrow> repeated nav ys st')"

section \<open>Example pages\<close>

text \<open>
  A page as \<^verbatim>\<open>new SlideManager()\<close> finds it: every optional element present, the
  counter showing 1, nothing scrolled to and no callback pending.
\<close>

definition loaded_page :: "slide list \<Rightarrow> real \<Rightarrow> real \<Rightarrow> real \<Rightarrow> page" where
  "loaded_page ss y h H =
     \<lparr>slides = ss,
      scrollProgress = Some \<lparr>style_width = Unset\<rparr>,
      currentSlideElement = Some \<lparr>textContent = ''1''\<rparr>,
      currentSlide = 1,
      upButton = Some \<lparr>disabled = False\<rparr>,
      downButton = Some \<lparr>disabled = False\<rparr>,
      pageYOffset = y,
      innerHeight = h,
      scrollHeight = H,
      scrollCalls = [],
      frameCallbacks = []\<rparr>"

text \<open>Five slides of height 800, one below the other.\<close>

definition five_slides :: "slide list" where
  "five_slides =
     [\<lparr>offsetTop = 0, offsetHeight = 800\<rparr>,
      \<lparr>offsetTop = 800, offsetHeight = 800\<rparr>,
      \<lparr>offsetTop = 1600, offsetHeight = 800\<rparr>,
      \<lparr>offsetTop = 2400, offsetHeight = 800\<rparr>,
      \<lparr>offsetTop = 3200, offsetHeight = 800\<rparr>]"

text \<open>A single slide that fills the viewport: the document has nothing to scroll.\<close>

definition single_slide :: "slide list" where
  "single_slide = [\<lparr>offsetTop = 0, offsetHeight = 800\<rparr>]"

section \<open>Rounding\<close>

lemma binary_exponent_bounds:
  assumes "x \<noteq> 0"
  shows "2 powi binary_exponent x \<le> \<bar>x\<bar> \<and> \<bar>x\<bar> < 2 powi (binary_exponent x + 1)"
proof (cases "1 \<le> \<bar>x\<bar>")
  case True
  define n where "n = \<lfloor>\<bar>x\<bar>\<rfloor>"
  define b where "b = bitlen n"
  have n: "0 < n" using True by (simp add: n_def)
  have bb: "2 ^ nat (b - 1) \<le> n" "n < 2 ^ nat b"
    using bitlen_bounds [OF n] by (simp_all add: b_def)
  have b1: "1 \<le> b" using n bitlen_eq_zero_iff [of n] bitlen_nonneg [of n] by (simp add: b_def)
  have e: "binary_exponent x = b - 1"
    using True by (simp add: binary_exponent_def n_def b_def)
  have "real_of_int (2 ^ nat (b - 1)) \<le> real_of_int n" using bb(1) by (simp only: of_int_le_iff)
  also have "\<dots> \<le> \<bar>x\<bar>" by (simp add: n_def)
  finally have lo: "2 powi (b - 1) \<le> \<bar>x\<bar>" using b1 by (simp add: power_int_def)
  have "\<bar>x\<bar> < real_of_int n + 1" by (simp add: n_def)
  also have "\<dots> = real_of_int (n + 1)" by simp
  also have "\<dots> \<le> real_of_int (2 ^ nat b)" using bb(2) by (simp only: of_int_le_iff)
  finally have hi: "\<bar>x\<bar> < 2 powi b" using b1 by (simp add: power_int_def)
  show ?thesis using lo hi by (simp add: e)
next
  case False
  define y where "y = 1 / \<bar>x\<bar>"
  define c where "c = \<lceil>y\<rceil>"
  define k where "k = bitlen (c - 1)"
  have x: "0 < \<bar>x\<bar>" "\<bar>x\<bar> < 1" using assms False by simp_all
  have y: "1 < y" using x by (simp add: y_def)
  have c: "1 < c" using y by (simp add: c_def less_ceiling_iff)
  have cy: "real_of_int c - 1 < y" "y \<le> real_of_int c" by (simp_all add: c_def) linarith
  have kb: "2 ^ nat (k - 1) \<le> c - 1" "c - 1 < 2 ^ nat k"
    using bitlen_bounds [of "c - 1"] c by (simp_all add: k_def)
  have k1: "1 \<le> k"
    using c bitlen_eq_zero_iff [of "c - 1"] bitlen_nonneg [of "c - 1"] by (simp add: k_def)
  have e: "binary_exponent x = - k"
    using False by (simp add: binary_exponent_def y_def c_def k_def)
  have "c \<le> 2 ^ nat k" using kb(2) by simp
  then have "real_of_int c \<le> real_of_int (2 ^ nat k)" by (simp only: of_int_le_iff)
  then have "real_of_int c \<le> 2 ^ nat k" by simp
  with cy(2) have "y \<le> 2 ^ nat k" by linarith
  then have lo: "2 powi (- k) \<le> \<bar>x\<bar>"
    using x k1 by (simp add: power_int_def y_def field_simps)
  have "real_of_int (2 ^ nat (k - 1)) \<le> real_of_int (c - 1)"
    using kb(1) by (simp only: of_int_le_iff)
  then have "2 ^ nat (k - 1) \<le> real_of_int c - 1" by simp
  with cy(1) have "2 ^ nat (k - 1) < y" by linarith
  then have hi: "\<bar>x\<bar> < 2 powi (- k + 1)"
    using x k1 by (simp add: power_int_def y_def field_simps nat_diff_distrib)
  show ?thesis using lo hi by (simp add: e)
qed

lemma round_half_even_of_int [simp]: "round_half_even (of_int m) = m"
  by (simp add: round_half_even_def)

lemma powi_nonpos: "q \<le> 0 \<Longrightarrow> (2::real) powi q = 1 / 2 ^ nat (- q)"
  by (cases "q = 0") (simp_all add: power_int_def field_simps)

lemma fl_of_int:
  assumes "\<bar>n\<bar> < 2 ^ 53"
  shows "fl (of_int n) = Num (of_int n)"
proof (cases "n = 0")
  case True
  then show ?thesis by (simp add: fl_def)
next
  case False
  define b where "b = bitlen \<bar>n\<bar>"
  have n: "0 < \<bar>n\<bar>" using False by simp
  have bb: "2 ^ nat (b - 1) \<le> \<bar>n\<bar>"
    using bitlen_bounds [OF n] by (simp add: b_def)
  have b1: "1 \<le> b"
    using n bitlen_eq_zero_iff [of "\<bar>n\<bar>"] bitlen_nonneg [of "\<bar>n\<bar>"] by (simp add: b_def)
  have "(2::int) ^ nat (b - 1) < 2 ^ 53" using bb assms by linarith
  then have "nat (b - 1) < 53" by (simp only: power_strict_increasing_iff) 
  then have b53: "b \<le> 53" by simp
  have fl_abs: "\<lfloor>\<bar>real_of_int n\<bar>\<rfloor> = \<bar>n\<bar>" by (metis floor_of_int of_int_abs)
  have "1 \<le> \<bar>n\<bar>" using False by simp
  then have "real_of_int 1 \<le> real_of_int \<bar>n\<bar>" by (simp only: of_int_le_iff)
  then have ge1: "1 \<le> \<bar>real_of_int n\<bar>" by simp
  have e: "binary_exponent (of_int n) = b - 1"
    unfolding binary_exponent_def b_def using ge1 by (simp only: fl_abs if_True)
  define d where "d = nat (53 - b)"
  have q: "max (binary_exponent (real_of_int n)) (- 1022) - 52 = - int d"
    using b1 b53 by (simp add: e d_def)
  have p: "(2::real) powi (- int d) = 1 / 2 ^ d"
    using powi_nonpos [of "- int d"] by simp
  have m: "real_of_int n / (1 / 2 ^ d) = of_int (n * 2 ^ d)" by simp
  have r: "real_of_int (round_half_even (real_of_int n / 2 powi (- int d))) * 2 powi (- int d)
      = real_of_int n"
    by (simp only: p m round_half_even_of_int) simp
  have "\<bar>real_of_int n\<bar> < 2 ^ 53"
    using assms by (metis of_int_abs of_int_less_iff of_int_numeral of_int_power)
  then have small: "\<not> 2 ^ 1024 \<le> real_of_int n" "\<not> real_of_int n \<le> - (2 ^ 1024)"
    by simp_all
  show ?thesis
    using False small by (simp add: fl_def Let_def q r del: power_int_minus)
qed

lemma fl_numeral: "(numeral k :: int) < 2 ^ 53 \<Longrightarrow> fl (numeral k) = Num (numeral k)"
  using fl_of_int [of "numeral k"] by simp

lemma fl_zero: "fl 0 = Num 0"
  by (simp add: fl_def)

text \<open>
  The sum of two values of type \<^verbatim>\<open>long\<close> is below \<open>2 ^ 53\<close> in magnitude, so the double
  addition \<^verbatim>\<open>slideTop + slide.offsetHeight\<close> is exact.
\<close>

lemma js_add_long:
  fixes a b :: "32 word"
  shows "js_add (Num (of_int (sint a))) (Num (of_int (sint b))) = Num (of_int (sint a + sint b))"
proof -
  have "- (2 ^ 31) \<le> sint a" "sint a < 2 ^ 31" "- (2 ^ 31) \<le> sint b" "sint b < 2 ^ 31"
    using sint_ge [of a] sint_lt [of a] sint_ge [of b] sint_lt [of b] by simp_all
  then have "\<bar>sint a + sint b\<bar> < 2 ^ 53" by simp
  then have "fl (of_int (sint a + sint b)) = Num (of_int (sint a + sint b))"
    by (rule fl_of_int)
  then show ?thesis by simp
qed

section \<open>The two scans over the slide sequence\<close>

text \<open>The test of the two \<^verbatim>\<open>forEach\<close> callbacks is the half-open range of the slide.\<close>

lemma slide_test:
  "(js_ge p (Num (of_int (sint (offsetTop s)))) \<and>
    js_lt p (js_add (Num (of_int (sint (offsetTop s)))) (Num (of_int (sint (offsetHeight s))))))
   = slide_contains s p"
  unfolding js_add_long slide_contains_def by (cases p) (simp_all del: of_int_sint of_int_add)

lemma scrollPosition_focus:
  "js_add (Num (pageYOffset st)) (js_mul (Num (innerHeight st)) (Num 0.5)) = focus_point st"
  by (simp add: focus_point_def mult.commute)

lemma getCurrentSlideIndex_focus:
  "getCurrentSlideIndex st = getCurrentSlideIndex_forEach (focus_point st) (slides st) 0 0"
  by (simp only: getCurrentSlideIndex_def scrollPosition_focus Let_def)

lemma updateCurrentSlide_focus:
  "updateCurrentSlide st = updateCurrentSlide_forEach (focus_point st) (slides st) 0 st"
  by (simp only: updateCurrentSlide_def scrollPosition_focus Let_def)

lemma getCurrentSlideIndex_forEach_Cons:
  "getCurrentSlideIndex_forEach p (s # rest) i c =
     getCurrentSlideIndex_forEach p rest (i + 1) (if slide_contains s p then i else c)"
  by (simp only: getCurrentSlideIndex_forEach.simps Let_def slide_test) simp

lemma updateCurrentSlide_forEach_Cons:
  "updateCurrentSlide_forEach p (s # rest) i st =
     updateCurrentSlide_forEach p rest (i + 1)
       (if slide_contains s p \<and> i + 1 \<noteq> currentSlide st
        then updateSlideCounter (st\<lparr>currentSlide := i + 1\<rparr>) else st)"
  by (simp only: updateCurrentSlide_forEach.simps Let_def slide_test) simp

declare getCurrentSlideIndex_forEach.simps(2) [simp del]
declare updateCurrentSlide_forEach.simps(2) [simp del]

lemma getCurrentSlideIndex_forEach_no_match:
  "\<forall>s \<in> set xs. \<not> slide_contains s p \<Longrightarrow> getCurrentSlideIndex_forEach p xs i c = c"
  by (induction xs arbitrary: i c) (simp_all add: getCurrentSlideIndex_forEach_Cons)

lemma getCurrentSlideIndex_forEach_last_match:
  "k < length xs \<Longrightarrow> slide_contains (xs ! k) p \<Longrightarrow>
   \<forall>s \<in> set (drop (Suc k) xs). \<not> slide_contains s p \<Longrightarrow>
   getCurrentSlideIndex_forEach p xs i c = i + int k"
proof (induction xs arbitrary: k i c)
  case Nil
  then show ?case by simp
next
  case (Cons x xs)
  show ?case
  proof (cases k)
    case 0
    with Cons.prems have "slide_contains x p" and "\<forall>s \<in> set xs. \<not> slide_contains s p"
      by simp_all
    then show ?thesis
      using 0 getCurrentSlideIndex_forEach_no_match [of xs p "i + 1" i]
      by (simp add: getCurrentSlideIndex_forEach_Cons)
  next
    case (Suc m)
    with Cons.prems have "m < length xs" "slide_contains (xs ! m) p"
      "\<forall>s \<in> set (drop (Suc m) xs). \<not> slide_contains s p"
      by simp_all
    then have "\<And>c'. getCurrentSlideIndex_forEach p xs (i + 1) c' = i + 1 + int m"
      by (rule Cons.IH)
    then show ?thesis using Suc by (simp add: getCurrentSlideIndex_forEach_Cons)
  qed
qed

lemma getCurrentSlideIndex_forEach_range:
  "getCurrentSlideIndex_forEach p xs i c = c \<or>
   (i \<le> getCurrentSlideIndex_forEach p xs i c \<and> getCurrentSlideIndex_forEach p xs i c < i + int (length xs))"
proof (induction xs arbitrary: i c)
  case Nil
  then show ?case by simp
next
  case (Cons x xs)
  show ?case
    using Cons.IH [of "i + 1" i] Cons.IH [of "i + 1" c]
    by (auto simp: getCurrentSlideIndex_forEach_Cons)
qed

lemma getCurrentSlideIndex_bounds:
  "0 \<le> getCurrentSlideIndex st \<and> (slides st \<noteq> [] \<longrightarrow> getCurrentSlideIndex st < int (length (slides st)))"
  using getCurrentSlideIndex_forEach_range [of "focus_point st" "slides st" 0 0]
  by (auto simp: getCurrentSlideIndex_focus)

lemma updateSlideCounter_fields [simp]:
  "currentSlide (updateSlideCounter st) = currentSlide st"
  "slides (updateSlideCounter st) = slides st"
  by (simp_all add: updateSlideCounter_def split: option.splits)

lemma updateCurrentSlide_forEach_no_match:
  "\<forall>s \<in> set xs. \<not> slide_contains s p \<Longrightarrow> updateCurrentSlide_forEach p xs i st = st"
  by (induction xs arbitrary: i st) (simp_all add: updateCurrentSlide_forEach_Cons)

lemma updateCurrentSlide_forEach_last_match:
  "k < length xs \<Longrightarrow> slide_contains (xs ! k) p \<Longrightarrow>
   \<forall>s \<in> set (drop (Suc k) xs). \<not> slide_contains s p \<Longrightarrow>
   currentSlide (updateCurrentSlide_forEach p xs i st) = i + int k + 1"
proof (induction xs arbitrary: k i st)
  case Nil
  then show ?case by simp
next
  case (Cons x xs)
  show ?case
  proof (cases k)
    case 0
    with Cons.prems have "slide_contains x p" and "\<forall>s \<in> set xs. \<not> slide_contains s p"
      by simp_all
    then have "slide_contains x p" and "\<And>j st'. updateCurrentSlide_forEach p xs j st' = st'"
      by (simp_all add: updateCurrentSlide_forEach_no_match)
    then show ?thesis
      using 0 by (simp add: updateCurrentSlide_forEach_Cons)
  next
    case (Suc m)
    with Cons.prems have "m < length xs" "slide_contains (xs ! m) p"
      "\<forall>s \<in> set (drop (Suc m) xs). \<not> slide_contains s p"
      by simp_all
    then have "\<And>j st'. currentSlide (updateCurrentSlide_forEach p xs j st') = j + int m + 1"
      by (rule Cons.IH)
    then show ?thesis using Suc by (simp add: updateCurrentSlide_forEach_Cons)
  qed
qed

section \<open>Stacked slides\<close>

lemma stacked_tail: "stacked (s # xs) \<Longrightarrow> stacked xs"
  by (cases xs) simp_all

lemma stacked_head_below:
  "stacked (s # xs) \<Longrightarrow>
   \<forall>t \<in> set xs. sint (offsetTop s) + sint (offsetHeight s) \<le> sint (offsetTop t)"
proof (induction xs arbitrary: s)
  case Nil
  then show ?case by simp
next
  case (Cons t xs)
  from Cons.prems have st: "sint (offsetTop s) + sint (offsetHeight s) \<le> sint (offsetTop t)"
    and pos: "0 < sint (offsetHeight t)" and tl: "stacked (t # xs)"
    by (cases xs; simp)+
  from Cons.IH [OF tl]
  have "\<forall>u \<in> set xs. sint (offsetTop t) + sint (offsetHeight t) \<le> sint (offsetTop u)" .
  with st pos show ?case by fastforce
qed

lemma stacked_later_below:
  "stacked xs \<Longrightarrow> k < length xs \<Longrightarrow>
   \<forall>t \<in> set (drop (Suc k) xs).
     sint (offsetTop (xs ! k)) + sint (offsetHeight (xs ! k)) \<le> sint (offsetTop t)"
proof (induction xs arbitrary: k)
  case Nil
  then show ?case by simp
next
  case (Cons s xs)
  show ?case
  proof (cases k)
    case 0
    then show ?thesis using stacked_head_below [OF Cons.prems(1)] by simp
  next
    case (Suc m)
    then show ?thesis
      using Cons.IH [OF stacked_tail [OF Cons.prems(1)], of m] Cons.prems(2) by simp
  qed
qed

lemma stacked_positive:
  "stacked xs \<Longrightarrow> k < length xs \<Longrightarrow> 0 < sint (offsetHeight (xs ! k))"
proof (induction xs arbitrary: k)
  case Nil
  then show ?case by simp
next
  case (Cons s xs)
  show ?case
  proof (cases k)
    case 0
    then show ?thesis using Cons.prems(1) by (cases xs) simp_all
  next
    case (Suc m)
    then show ?thesis
      using Cons.IH [OF stacked_tail [OF Cons.prems(1)], of m] Cons.prems(2) by simp
  qed
qed

lemma stacked_no_later_match:
  assumes "stacked xs" and "k < length xs" and "slide_contains (xs ! k) p"
  shows "\<forall>t \<in> set (drop (Suc k) xs). \<not> slide_contains t p"
proof
  fix t assume "t \<in> set (drop (Suc k) xs)"
  with stacked_later_below [OF assms(1,2)]
  have "sint (offsetTop (xs ! k)) + sint (offsetHeight (xs ! k)) \<le> sint (offsetTop t)"
    by blast
  then have "real_of_int (sint (offsetTop (xs ! k)) + sint (offsetHeight (xs ! k)))
      \<le> real_of_int (sint (offsetTop t))"
    by (simp only: of_int_le_iff)
  with assms(3) show "\<not> slide_contains t p"
    by (cases p) (auto simp: slide_contains_def)
qed

section \<open>The example pages\<close>

lemma loaded_page_fields [simp]:
  "slides (loaded_page ss y h H) = ss"
  "pageYOffset (loaded_page ss y h H) = y"
  "innerHeight (loaded_page ss y h H) = h"
  "scrollHeight (loaded_page ss y h H) = H"
  "currentSlide (loaded_page ss y h H) = 1"
  by (simp_all add: loaded_page_def)

lemma five_slides_stacked: "stacked five_slides"
  by (simp add: five_slides_def)

lemma five_slides_length [simp]: "length five_slides = 5"
  by (simp add: five_slides_def)

lemma five_slides_not_empty [simp]: "five_slides \<noteq> []"
  by (simp add: five_slides_def)

text \<open>The focus point of the examples: half of 800 is 400, and the sums are integers.\<close>

lemma focus_point_examples:
  "focus_point (loaded_page ss 1600 800 H) = Num 2000"
  "focus_point (loaded_page ss 1200 800 H) = Num 1600"
  "focus_point (loaded_page ss 4000 800 H) = Num 4400"
  "focus_point (loaded_page ss 0 800 H) = Num 400"
  "focus_point (loaded_page ss 3200 800 H) = Num 3600"
  "focus_point (loaded_page ss 3200 600 H) = Num 3500"
  by (simp_all add: focus_point_def fl_numeral)

text \<open>
  Where the sum is not a double it is rounded: at the offset \<open>400 - 2 ^ -44\<close> the exact
  sum is half way between two doubles and the focus point is the even one, 800, the
  top of slide 1.
\<close>

lemma focus_point_rounded:
  "focus_point (loaded_page ss (400 - 1 / 2 ^ 44) 800 H) = Num 800"
proof -
  have "fl (400 - 1 / 2 ^ 44 + 400) = Num 800" by code_simp
  then show ?thesis by (simp add: focus_point_def fl_numeral)
qed

lemma getCurrentSlideIndex_five_slides:
  "getCurrentSlideIndex_forEach (Num 2000) five_slides 0 0 = 2"
  "getCurrentSlideIndex_forEach (Num 1600) five_slides 0 0 = 2"
  "getCurrentSlideIndex_forEach (Num 400) five_slides 0 0 = 0"
  "getCurrentSlideIndex_forEach (Num 3600) five_slides 0 0 = 4"
  "getCurrentSlideIndex_forEach (Num 3500) five_slides 0 0 = 4"
  "getCurrentSlideIndex_forEach (Num 800) five_slides 0 0 = 1"
  by (simp_all add: five_slides_def getCurrentSlideIndex_forEach_Cons slide_contains_def)

text \<open>
  So at that offset the current slide is slide 1, although the exact sum lies in the
  range of slide 0.
\<close>

lemma getCurrentSlideIndex_rounded:
  "getCurrentSlideIndex (loaded_page five_slides (400 - 1 / 2 ^ 44) 800 4000) = 1"
  by (simp only: getCurrentSlideIndex_focus focus_point_rounded loaded_page_fields
      getCurrentSlideIndex_five_slides)

section \<open>The current slide\<close>

text \<open>
  C1. For every slide sequence (slides stacked vertically, each a half-open range from
  its top to its top plus its height) and every scroll state whose focus point lies
  inside the range of slide \<open>k\<close>, the slide index computation yields \<open>k\<close>:
  \<^verbatim>\<open>getCurrentSlideIndex\<close> returns \<open>k\<close> and \<^verbatim>\<open>updateCurrentSlide\<close> stores \<open>k + 1\<close>. A focus
  point exactly equal to the top of slide \<open>k + 1\<close> yields \<open>k + 1\<close>, not \<open>k\<close>.
\<close>

theorem slide_index_of_focus_point:
  assumes "stacked (slides st)" and "k < length (slides st)"
  shows "(slide_contains (slides st ! k) (focus_point st) \<longrightarrow>
            getCurrentSlideIndex st = int k \<and> currentSlide (updateCurrentSlide st) = int k + 1) \<and>
         (Suc k < length (slides st) \<and>
          focus_point st = Num (of_int (sint (offsetTop (slides st ! Suc k)))) \<longrightarrow>
            getCurrentSlideIndex st = int k + 1 \<and>
            getCurrentSlideIndex st \<noteq> int k \<and>
            currentSlide (updateCurrentSlide st) = int k + 2)"
proof -
  have inside: "getCurrentSlideIndex st = int j \<and> currentSlide (updateCurrentSlide st) = int j + 1"
    if "j < length (slides st)" "slide_contains (slides st ! j) (focus_point st)" for j
    using getCurrentSlideIndex_forEach_last_match
        [OF that stacked_no_later_match [OF assms(1) that], of 0 0]
      updateCurrentSlide_forEach_last_match
        [OF that stacked_no_later_match [OF assms(1) that], of 0 st]
    by (simp add: getCurrentSlideIndex_focus updateCurrentSlide_focus)
  have top: "slide_contains (slides st ! Suc k) (focus_point st)"
    if "Suc k < length (slides st)"
      "focus_point st = Num (of_int (sint (offsetTop (slides st ! Suc k))))"
    using that stacked_positive [OF assms(1) that(1)]
    by (simp add: slide_contains_def del: of_int_sint)
  show ?thesis
    using inside [OF assms(2)] inside [of "Suc k"] top by auto
qed

text \<open>
  Five slides of height 800 in a viewport of height 800: at offset 1600 the focus point
  2000 is inside slide 2; at offset 1200 the focus point 1600 is the top of slide 2.
\<close>

theorem slide_index_of_focus_point_witness:
  "stacked (slides (loaded_page five_slides 1600 800 4000)) \<and>
   2 < length (slides (loaded_page five_slides 1600 800 4000)) \<and>
   focus_point (loaded_page five_slides 1600 800 4000) = Num 2000 \<and>
   slide_contains (slides (loaded_page five_slides 1600 800 4000) ! 2)
     (focus_point (loaded_page five_slides 1600 800 4000)) \<and>
   getCurrentSlideIndex (loaded_page five_slides 1600 800 4000) = 2 \<and>
   currentSlide (updateCurrentSlide (loaded_page five_slides 1600 800 4000)) = 3 \<and>
   focus_point (loaded_page five_slides 1200 800 4000) =
     Num (of_int (sint (offsetTop (slides (loaded_page five_slides 1200 800 4000) ! 2)))) \<and>
   getCurrentSlideIndex (loaded_page five_slides 1200 800 4000) = 2 \<and>
   currentSlide (updateCurrentSlide (loaded_page five_slides 1200 800 4000)) = 3"
proof -
  have c: "slide_contains (five_slides ! 2) (Num 2000)"
    by (simp add: five_slides_def slide_contains_def)
  have t: "Num (of_int (sint (offsetTop (five_slides ! 2)))) = Num 1600"
    by (simp add: five_slides_def)
  have t': "Num (of_int (sint (offsetTop (five_slides ! Suc 1)))) = Num 1600"
    by (simp add: five_slides_def)
  have a: "getCurrentSlideIndex (loaded_page five_slides 1600 800 4000) = 2 \<and>
      currentSlide (updateCurrentSlide (loaded_page five_slides 1600 800 4000)) = 3"
    using slide_index_of_focus_point [of "loaded_page five_slides 1600 800 4000" 2] c
    by (simp add: five_slides_stacked focus_point_examples)
  have b: "getCurrentSlideIndex (loaded_page five_slides 1200 800 4000) = 2 \<and>
      currentSlide (updateCurrentSlide (loaded_page five_slides 1200 800 4000)) = 3"
    using slide_index_of_focus_point [of "loaded_page five_slides 1200 800 4000" 1] t'
    by (simp add: five_slides_stacked focus_point_examples del: of_int_sint)
  show ?thesis
    using a b c t
    by (simp add: five_slides_stacked focus_point_examples del: of_int_sint)
qed

text \<open>
  C3. For every scroll state whose focus point lies inside no slide's range (which
  includes the empty slide sequence), \<^verbatim>\<open>getCurrentSlideIndex\<close> returns 0.
\<close>

theorem getCurrentSlideIndex_no_match_zero:
  "\<forall>s \<in> set (slides st). \<not> slide_contains s (focus_point st) \<Longrightarrow> getCurrentSlideIndex st = 0"
  using getCurrentSlideIndex_forEach_no_match [of "slides st" "focus_point st" 0 0]
  by (simp add: getCurrentSlideIndex_focus)

text \<open>
  Scrolled to offset 4000 the focus point 4400 is below the last of the five slides;
  the second page has no slide at all.
\<close>

theorem getCurrentSlideIndex_no_match_zero_witness:
  "focus_point (loaded_page five_slides 4000 800 4000) = Num 4400 \<and>
   list_all (\<lambda>s. \<not> slide_contains s (focus_point (loaded_page five_slides 4000 800 4000)))
     (slides (loaded_page five_slides 4000 800 4000)) \<and>
   getCurrentSlideIndex (loaded_page five_slides 4000 800 4000) = 0 \<and>
   getCurrentSlideIndex (loaded_page [] 0 800 800) = 0"
proof -
  have n: "list_all (\<lambda>s. \<not> slide_contains s (Num 4400)) five_slides"
    by (simp add: five_slides_def slide_contains_def)
  show ?thesis
    using getCurrentSlideIndex_no_match_zero [of "loaded_page five_slides 4000 800 4000"]
      getCurrentSlideIndex_no_match_zero [of "loaded_page [] 0 800 800"] n
    by (simp add: focus_point_examples list_all_iff)
qed

text \<open>
  C4. For every prior value of \<^verbatim>\<open>currentSlide\<close> and every scroll state whose focus point
  lies inside no slide's range, \<^verbatim>\<open>updateCurrentSlide\<close> changes nothing: the stored
  current slide and the text of the counter stay as they were.
\<close>

theorem updateCurrentSlide_no_match_unchanged:
  "\<forall>s \<in> set (slides st). \<not> slide_contains s (focus_point st) \<Longrightarrow> updateCurrentSlide st = st"
  using updateCurrentSlide_forEach_no_match [of "slides st" "focus_point st" 0 st]
  by (simp add: updateCurrentSlide_focus)

theorem updateCurrentSlide_no_match_unchanged_witness:
  "focus_point (loaded_page five_slides 4000 800 4000\<lparr>currentSlide := 5\<rparr>) = Num 4400 \<and>
   list_all
     (\<lambda>s. \<not> slide_contains s (focus_point (loaded_page five_slides 4000 800 4000\<lparr>currentSlide := 5\<rparr>)))
     (slides (loaded_page five_slides 4000 800 4000\<lparr>currentSlide := 5\<rparr>)) \<and>
   updateCurrentSlide (loaded_page five_slides 4000 800 4000\<lparr>currentSlide := 5\<rparr>) =
     loaded_page five_slides 4000 800 4000\<lparr>currentSlide := 5\<rparr>"
proof -
  have n: "list_all (\<lambda>s. \<not> slide_contains s (Num 4400)) five_slides"
    by (simp add: five_slides_def slide_contains_def)
  have f: "focus_point (loaded_page five_slides 4000 800 4000\<lparr>currentSlide := 5\<rparr>) = Num 4400"
    using focus_point_examples(3) [of five_slides 4000] by (simp add: focus_point_def)
  show ?thesis
    using updateCurrentSlide_no_match_unchanged
      [of "loaded_page five_slides 4000 800 4000\<lparr>currentSlide := 5\<rparr>"] n
    by (simp add: f list_all_iff)
qed

section \<open>Scroll progress\<close>

lemma updateScrollProgress_scrollable:
  assumes "0 < scrollHeight st - innerHeight st" and "scrollProgress st = Some bar"
  shows "scrollProgress (updateScrollProgress st) =
     Some (bar\<lparr>style_width := Percent (Num (min (pageYOffset st / (scrollHeight st - innerHeight st) * 100) 100))\<rparr>)"
  using assms by (simp add: updateScrollProgress_def js_div_def)

text \<open>
  C7. For every scrollable document (\<open>scrollHeight - innerHeight > 0\<close>), every progress
  bar and every two scroll offsets \<open>0 \<le> a \<le> b\<close> under the same geometry,
  \<^verbatim>\<open>updateScrollProgress\<close> writes a finite percentage at each offset, both percentages
  lie between 0 and 100, and the one written at \<open>a\<close> is at most the one written at \<open>b\<close>.
\<close>

theorem progress_width_bounded_monotone:
  assumes "0 < scrollHeight st - innerHeight st" and "0 \<le> a" and "a \<le> b"
    and "scrollProgress st = Some bar"
  shows "\<exists>p q. scrollProgress (updateScrollProgress (st\<lparr>pageYOffset := a\<rparr>)) =
                 Some (bar\<lparr>style_width := Percent (Num p)\<rparr>) \<and>
               scrollProgress (updateScrollProgress (st\<lparr>pageYOffset := b\<rparr>)) =
                 Some (bar\<lparr>style_width := Percent (Num q)\<rparr>) \<and>
               0 \<le> p \<and> p \<le> q \<and> q \<le> 100"
proof -
  let ?d = "scrollHeight st - innerHeight st"
  let ?p = "min (a / ?d * 100) 100"
  let ?q = "min (b / ?d * 100) 100"
  have "a / ?d \<le> b / ?d" using assms(1,3) by (simp add: divide_right_mono)
  then have "a / ?d * 100 \<le> b / ?d * 100" by (rule mult_right_mono) simp
  then have pq: "?p \<le> ?q" by (rule min.mono) simp
  have p0: "0 \<le> ?p" using assms(1,2) by simp
  have q100: "?q \<le> 100" by simp
  have "scrollProgress (updateScrollProgress (st\<lparr>pageYOffset := a\<rparr>)) =
          Some (bar\<lparr>style_width := Percent (Num ?p)\<rparr>)"
    using updateScrollProgress_scrollable [of "st\<lparr>pageYOffset := a\<rparr>" bar] assms(1,4) by simp
  moreover have "scrollProgress (updateScrollProgress (st\<lparr>pageYOffset := b\<rparr>)) =
          Some (bar\<lparr>style_width := Percent (Num ?q)\<rparr>)"
    using updateScrollProgress_scrollable [of "st\<lparr>pageYOffset := b\<rparr>" bar] assms(1,4) by simp
  ultimately show ?thesis using p0 pq q100 by blast
qed

text \<open>
  The five slides with a scroll range of 3200: half way (offset 1600) and scrolled past
  the end (offset 4000).
\<close>

theorem progress_width_bounded_monotone_witness:
  "(0::real) < scrollHeight (loaded_page five_slides 0 800 4000) - innerHeight (loaded_page five_slides 0 800 4000) \<and>
   (0::real) \<le> 1600 \<and> (1600::real) \<le> 4000 \<and>
   scrollProgress (loaded_page five_slides 0 800 4000) = Some \<lparr>style_width = Unset\<rparr> \<and>
   (\<exists>p q. scrollProgress (updateScrollProgress (loaded_page five_slides 0 800 4000\<lparr>pageYOffset := 1600\<rparr>)) =
            Some \<lparr>style_width = Percent (Num p)\<rparr> \<and>
          scrollProgress (updateScrollProgress (loaded_page five_slides 0 800 4000\<lparr>pageYOffset := 4000\<rparr>)) =
            Some \<lparr>style_width = Percent (Num q)\<rparr> \<and>
          0 \<le> p \<and> p \<le> q \<and> q \<le> 100)"
  using progress_width_bounded_monotone [of "loaded_page five_slides 0 800 4000" 1600 4000 "\<lparr>style_width = Unset\<rparr>"]
  by (simp add: loaded_page_def)

text \<open>
  C2. The specification asks for a progress of exactly 0 and a written width of 0%
  whenever the document is not scrollable. The code divides without a guard: on a page whose single
  slide fills the viewport (\<open>scrollHeight = innerHeight = 800\<close>, offset 0) the scroll
  range is 0, the progress \<^verbatim>\<open>(0 / 0) * 100\<close> is \<^verbatim>\<open>NaN\<close>, and the width assigned to the
  progress bar is \<^verbatim>\<open>NaN%\<close>.
\<close>

theorem updateScrollProgress_unscrollable_NaN:
  "scrollHeight (loaded_page single_slide 0 800 800) - innerHeight (loaded_page single_slide 0 800 800) = 0 \<and>
   js_times (js_div (pageYOffset (loaded_page single_slide 0 800 800))
      (scrollHeight (loaded_page single_slide 0 800 800) - innerHeight (loaded_page single_slide 0 800 800))) 100 = NaN \<and>
   scrollProgress (updateScrollProgress (loaded_page single_slide 0 800 800)) =
     Some \<lparr>style_width = Percent NaN\<rparr>"
  by (simp add: loaded_page_def updateScrollProgress_def js_div_def)

section \<open>Navigation\<close>

lemma goToSlide_in_range:
  "0 \<le> i \<Longrightarrow> i < int (length (slides st)) \<Longrightarrow>
   goToSlide st i = Inr (st\<lparr>scrollCalls := scrollCalls st @ [ScrollIntoView i Smooth Start]\<rparr>)"
  by (simp add: goToSlide_def js_index_def)

lemma goToSlide_out_of_range:
  "i < 0 \<or> int (length (slides st)) \<le> i \<Longrightarrow> goToSlide st i = Inr st"
  by (auto simp: goToSlide_def)

text \<open>
  C6. For every index \<open>i\<close> outside \<open>[0, N)\<close>, \<^verbatim>\<open>goToSlide\<close> returns the page as it was:
  no scroll call, no other change, no exception. For \<open>i\<close> inside \<open>[0, N)\<close> it adds
  exactly one call, \<^verbatim>\<open>scrollIntoView\<close> on slide \<open>i\<close> with smooth behaviour and block
  \<^verbatim>\<open>start\<close> (the top of the slide at the top of the viewport), and changes nothing else.
\<close>

theorem goToSlide_guard:
  "(i < 0 \<or> int (length (slides st)) \<le> i \<longrightarrow> goToSlide st i = Inr st) \<and>
   (0 \<le> i \<and> i < int (length (slides st)) \<longrightarrow>
      goToSlide st i = Inr (st\<lparr>scrollCalls := scrollCalls st @ [ScrollIntoView i Smooth Start]\<rparr>))"
  by (simp add: goToSlide_in_range goToSlide_out_of_range)

theorem goToSlide_guard_witness:
  "goToSlide (loaded_page five_slides 0 800 4000) (- 1) = Inr (loaded_page five_slides 0 800 4000) \<and>
   goToSlide (loaded_page five_slides 0 800 4000) 5 = Inr (loaded_page five_slides 0 800 4000) \<and>
   goToSlide (loaded_page five_slides 0 800 4000) 4 =
     Inr (loaded_page five_slides 0 800 4000\<lparr>scrollCalls := [ScrollIntoView 4 Smooth Start]\<rparr>)"
  using goToSlide_guard [of "- 1" "loaded_page five_slides 0 800 4000"]
    goToSlide_guard [of 5 "loaded_page five_slides 0 800 4000"]
    goToSlide_guard [of 4 "loaded_page five_slides 0 800 4000"]
  by (simp add: loaded_page_def five_slides_def)

lemma navigateUp_call:
  assumes "slides st \<noteq> []"
  shows "navigateUp st =
     Inr (st\<lparr>scrollCalls := scrollCalls st @
            [ScrollIntoView (max (getCurrentSlideIndex st - 1) 0) Smooth Start]\<rparr>)"
  using assms getCurrentSlideIndex_bounds [of st]
  by (simp add: navigateUp_def Let_def goToSlide_in_range)

lemma navigateDown_call:
  assumes "slides st \<noteq> []"
  shows "navigateDown st =
     Inr (st\<lparr>scrollCalls := scrollCalls st @
            [ScrollIntoView (min (getCurrentSlideIndex st + 1) (int (length (slides st)) - 1))
               Smooth Start]\<rparr>)"
  using assms getCurrentSlideIndex_bounds [of st]
  by (simp add: navigateDown_def Let_def goToSlide_in_range)

lemma repeated_navigateDown:
  "slides st \<noteq> [] \<Longrightarrow>
   \<exists>st' cs. repeated navigateDown ys st = Inr st' \<and> slides st' = slides st \<and>
     scrollCalls st' = scrollCalls st @ cs \<and> length cs = length ys \<and>
     (\<forall>c \<in> set cs. 0 \<le> target c \<and> target c \<le> int (length (slides st)) - 1)"
proof (induction ys arbitrary: st)
  case Nil
  then show ?case by simp
next
  case (Cons w ys)
  obtain y h H where w: "w = (y, h, H)" by (cases w)
  let ?s = "st\<lparr>pageYOffset := y, innerHeight := h, scrollHeight := H\<rparr>"
  let ?t = "min (getCurrentSlideIndex ?s + 1) (int (length (slides st)) - 1)"
  let ?s1 = "?s\<lparr>scrollCalls := scrollCalls st @ [ScrollIntoView ?t Smooth Start]\<rparr>"
  have step: "navigateDown ?s = Inr ?s1"
    using navigateDown_call [of ?s] Cons.prems by simp
  have t: "0 \<le> ?t \<and> ?t \<le> int (length (slides st)) - 1"
    using getCurrentSlideIndex_bounds [of ?s] Cons.prems by simp
  from Cons.IH [of ?s1] Cons.prems obtain st' cs where
    r: "repeated navigateDown ys ?s1 = Inr st'" "slides st' = slides st"
      "scrollCalls st' = (scrollCalls st @ [ScrollIntoView ?t Smooth Start]) @ cs"
      "length cs = length ys"
      "\<forall>c \<in> set cs. 0 \<le> target c \<and> target c \<le> int (length (slides st)) - 1"
    by auto
  show ?case
  proof (intro exI conjI)
    show "repeated navigateDown (w # ys) st = Inr st'" using step r(1) w by simp
    show "slides st' = slides st" by (rule r(2))
    show "scrollCalls st' = scrollCalls st @ (ScrollIntoView ?t Smooth Start # cs)"
      using r(3) by simp
    show "length (ScrollIntoView ?t Smooth Start # cs) = length (w # ys)" using r(4) by simp
    show "\<forall>c \<in> set (ScrollIntoView ?t Smooth Start # cs).
            0 \<le> target c \<and> target c \<le> int (length (slides st)) - 1"
      using t r(5) by simp
  qed
qed

lemma repeated_navigateUp:
  "slides st \<noteq> [] \<Longrightarrow>
   \<exists>st' cs. repeated navigateUp ys st = Inr st' \<and> slides st' = slides st \<and>
     scrollCalls st' = scrollCalls st @ cs \<and> length cs = length ys \<and>
     (\<forall>c \<in> set cs. 0 \<le> target c \<and> target c \<le> int (length (slides st)) - 1)"
proof (induction ys arbitrary: st)
  case Nil
  then show ?case by simp
next
  case (Cons w ys)
  obtain y h H where w: "w = (y, h, H)" by (cases w)
  let ?s = "st\<lparr>pageYOffset := y, innerHeight := h, scrollHeight := H\<rparr>"
  let ?t = "max (getCurrentSlideIndex ?s - 1) 0"
  let ?s1 = "?s\<lparr>scrollCalls := scrollCalls st @ [ScrollIntoView ?t Smooth Start]\<rparr>"
  have step: "navigateUp ?s = Inr ?s1"
    using navigateUp_call [of ?s] Cons.prems by simp
  have t: "0 \<le> ?t \<and> ?t \<le> int (length (slides st)) - 1"
    using getCurrentSlideIndex_bounds [of ?s] Cons.prems by simp
  from Cons.IH [of ?s1] Cons.prems obtain st' cs where
    r: "repeated navigateUp ys ?s1 = Inr st'" "slides st' = slides st"
      "scrollCalls st' = (scrollCalls st @ [ScrollIntoView ?t Smooth Start]) @ cs"
      "length cs = length ys"
      "\<forall>c \<in> set cs. 0 \<le> target c \<and> target c \<le> int (length (slides st)) - 1"
    by auto
  show ?case
  proof (intro exI conjI)
    show "repeated navigateUp (w # ys) st = Inr st'" using step r(1) w by simp
    show "slides st' = slides st" by (rule r(2))
    show "scrollCalls st' = scrollCalls st @ (ScrollIntoView ?t Smooth Start # cs)"
      using r(3) by simp
    show "length (ScrollIntoView ?t Smooth Start # cs) = length (w # ys)" using r(4) by simp
    show "\<forall>c \<in> set (ScrollIntoView ?t Smooth Start # cs).
            0 \<le> target c \<and> target c \<le> int (length (slides st)) - 1"
      using t r(5) by simp
  qed
qed

text \<open>
  C5. For every page with at least one slide and every scroll state, \<^verbatim>\<open>navigateUp\<close>
  scrolls to slide \<open>max (currentIndex - 1) 0\<close> and \<^verbatim>\<open>navigateDown\<close> to slide
  \<open>min (currentIndex + 1) (N - 1)\<close>, where \<open>currentIndex\<close> is the result of
  \<^verbatim>\<open>getCurrentSlideIndex\<close>: the target passes the guard of \<^verbatim>\<open>goToSlide\<close>. Hence
  pressing either control any number of times, whatever the scroll state is at each
  press, issues one call per press and every call targets an index between 0 and
  \<open>N - 1\<close>.
\<close>

theorem navigate_targets_clamped:
  assumes "slides st \<noteq> []"
  shows "navigateUp st =
           Inr (st\<lparr>scrollCalls := scrollCalls st @
                  [ScrollIntoView (max (getCurrentSlideIndex st - 1) 0) Smooth Start]\<rparr>) \<and>
         navigateDown st =
           Inr (st\<lparr>scrollCalls := scrollCalls st @
                  [ScrollIntoView (min (getCurrentSlideIndex st + 1) (int (length (slides st)) - 1))
                     Smooth Start]\<rparr>) \<and>
         (\<exists>st' cs. repeated navigateDown ys st = Inr st' \<and>
            scrollCalls st' = scrollCalls st @ cs \<and> length cs = length ys \<and>
            (\<forall>c \<in> set cs. 0 \<le> target c \<and> target c \<le> int (length (slides st)) - 1)) \<and>
         (\<exists>st' cs. repeated navigateUp ys st = Inr st' \<and>
            scrollCalls st' = scrollCalls st @ cs \<and> length cs = length ys \<and>
            (\<forall>c \<in> set cs. 0 \<le> target c \<and> target c \<le> int (length (slides st)) - 1))"
proof (intro conjI)
  show "navigateUp st =
           Inr (st\<lparr>scrollCalls := scrollCalls st @
                  [ScrollIntoView (max (getCurrentSlideIndex st - 1) 0) Smooth Start]\<rparr>)"
    using assms by (rule navigateUp_call)
  show "navigateDown st =
           Inr (st\<lparr>scrollCalls := scrollCalls st @
                  [ScrollIntoView (min (getCurrentSlideIndex st + 1) (int (length (slides st)) - 1))
                     Smooth Start]\<rparr>)"
    using assms by (rule navigateDown_call)
  show "\<exists>st' cs. repeated navigateDown ys st = Inr st' \<and>
            scrollCalls st' = scrollCalls st @ cs \<and> length cs = length ys \<and>
            (\<forall>c \<in> set cs. 0 \<le> target c \<and> target c \<le> int (length (slides st)) - 1)"
    using repeated_navigateDown [OF assms, of ys] by blast
  show "\<exists>st' cs. repeated navigateUp ys st = Inr st' \<and>
            scrollCalls st' = scrollCalls st @ cs \<and> length cs = length ys \<and>
            (\<forall>c \<in> set cs. 0 \<le> target c \<and> target c \<le> int (length (slides st)) - 1)"
    using repeated_navigateUp [OF assms, of ys] by blast
qed

theorem navigate_targets_clamped_witness:
  "slides (loaded_page five_slides 0 800 4000) \<noteq> [] \<and>
   navigateUp (loaded_page five_slides 0 800 4000) =
     Inr (loaded_page five_slides 0 800 4000
            \<lparr>scrollCalls := scrollCalls (loaded_page five_slides 0 800 4000) @
               [ScrollIntoView 0 Smooth Start]\<rparr>) \<and>
   navigateDown (loaded_page five_slides 3200 800 4000) =
     Inr (loaded_page five_slides 3200 800 4000
            \<lparr>scrollCalls := scrollCalls (loaded_page five_slides 3200 800 4000) @
               [ScrollIntoView 4 Smooth Start]\<rparr>) \<and>
   (\<exists>st' cs. repeated navigateDown [(0, 800, 4000), (3200, 800, 4000), (3200, 600, 3800)] (loaded_page five_slides 0 800 4000) = Inr st' \<and>
      scrollCalls st' = scrollCalls (loaded_page five_slides 0 800 4000) @ cs \<and>
      length cs = 3 \<and> (\<forall>c \<in> set cs. 0 \<le> target c \<and> target c \<le> 4))"
proof -
  have ne: "slides (loaded_page five_slides 0 800 4000) \<noteq> []"
    "slides (loaded_page five_slides 3200 800 4000) \<noteq> []"
    by (simp_all add: loaded_page_def five_slides_def)
  have len: "int (length (slides (loaded_page five_slides 0 800 4000))) = 5"
    "int (length (slides (loaded_page five_slides 3200 800 4000))) = 5"
    by (simp_all add: loaded_page_def five_slides_def)
  have ci: "getCurrentSlideIndex (loaded_page five_slides 0 800 4000) = 0"
    "getCurrentSlideIndex (loaded_page five_slides 3200 800 4000) = 4"
    by (simp_all add: getCurrentSlideIndex_focus focus_point_examples
        getCurrentSlideIndex_five_slides)
  show ?thesis
    using navigate_targets_clamped [OF ne(1), of "[(0, 800, 4000), (3200, 800, 4000), (3200, 600, 3800)]"] navigate_targets_clamped [OF ne(2), of "[]"] ne(1)
    unfolding len ci by (simp add: numeral_3_eq_3)
qed

text \<open>
  C8. When the slide sequence is empty, \<^verbatim>\<open>goToSlide\<close> with any argument,
  \<^verbatim>\<open>navigateUp\<close>, \<^verbatim>\<open>navigateDown\<close> and \<^verbatim>\<open>handleKeydown\<close> with any key return the page
  as it was: no scroll call is issued, and no undefined slide is dereferenced (the
  result is never the \<^verbatim>\<open>TypeError\<close>).
\<close>

theorem navigation_noop_without_slides:
  assumes "slides st = []"
  shows "goToSlide st i = Inr st \<and> navigateUp st = Inr st \<and> navigateDown st = Inr st \<and>
         (\<exists>e'. handleKeydown st e = Inr (e', st))"
proof -
  have g: "\<And>j. goToSlide st j = Inr st"
    using assms by (auto simp: goToSlide_def)
  show ?thesis
    by (simp add: g navigateUp_def navigateDown_def handleKeydown_def Let_def)
qed

theorem navigation_noop_without_slides_witness:
  "slides (loaded_page [] 0 800 800) = [] \<and>
   goToSlide (loaded_page [] 0 800 800) 0 = Inr (loaded_page [] 0 800 800) \<and>
   navigateUp (loaded_page [] 0 800 800) = Inr (loaded_page [] 0 800 800) \<and>
   navigateDown (loaded_page [] 0 800 800) = Inr (loaded_page [] 0 800 800) \<and>
   handleKeydown (loaded_page [] 0 800 800) \<lparr>key = ''ArrowDown'', defaultPrevented = False\<rparr> =
     Inr (\<lparr>key = ''ArrowDown'', defaultPrevented = True\<rparr>, loaded_page [] 0 800 800)"
  using navigation_noop_without_slides [of "loaded_page [] 0 800 800" 0 "\<lparr>key = ''ArrowDown'', defaultPrevented = False\<rparr>"]
  by (simp add: loaded_page_def handleKeydown_def preventDefault_def goToSlide_def
      getCurrentSlideIndex_def)

text \<open>
  C10. With at least one slide, a \<^verbatim>\<open>Home\<close> keydown scrolls to slide 0 and an \<^verbatim>\<open>End\<close>
  keydown to slide \<open>N - 1\<close>, whatever the current index is; with no slide, \<^verbatim>\<open>End\<close>
  computes the target \<open>-1\<close> and issues no scroll call. In each case the default action
  of the key is prevented.
\<close>

theorem handleKeydown_Home_End:
  "(slides st \<noteq> [] \<and> key e = ''Home'' \<longrightarrow>
      handleKeydown st e =
        Inr (preventDefault e, st\<lparr>scrollCalls := scrollCalls st @ [ScrollIntoView 0 Smooth Start]\<rparr>)) \<and>
   (slides st \<noteq> [] \<and> key e = ''End'' \<longrightarrow>
      handleKeydown st e =
        Inr (preventDefault e,
             st\<lparr>scrollCalls := scrollCalls st @
                  [ScrollIntoView (int (length (slides st)) - 1) Smooth Start]\<rparr>)) \<and>
   (slides st = [] \<and> key e = ''End'' \<longrightarrow> handleKeydown st e = Inr (preventDefault e, st))"
  by (auto simp: handleKeydown_def Let_def goToSlide_in_range goToSlide_out_of_range)

theorem handleKeydown_Home_End_witness:
  "handleKeydown (loaded_page five_slides 1600 800 4000) \<lparr>key = ''Home'', defaultPrevented = False\<rparr> =
     Inr (\<lparr>key = ''Home'', defaultPrevented = True\<rparr>,
          loaded_page five_slides 1600 800 4000\<lparr>scrollCalls := [ScrollIntoView 0 Smooth Start]\<rparr>) \<and>
   handleKeydown (loaded_page five_slides 1600 800 4000) \<lparr>key = ''End'', defaultPrevented = False\<rparr> =
     Inr (\<lparr>key = ''End'', defaultPrevented = True\<rparr>,
          loaded_page five_slides 1600 800 4000\<lparr>scrollCalls := [ScrollIntoView 4 Smooth Start]\<rparr>) \<and>
   handleKeydown (loaded_page [] 0 800 800) \<lparr>key = ''End'', defaultPrevented = False\<rparr> =
     Inr (\<lparr>key = ''End'', defaultPrevented = True\<rparr>, loaded_page [] 0 800 800)"
  using handleKeydown_Home_End [of "loaded_page five_slides 1600 800 4000" "\<lparr>key = ''Home'', defaultPrevented = False\<rparr>"]
    handleKeydown_Home_End [of "loaded_page five_slides 1600 800 4000" "\<lparr>key = ''End'', defaultPrevented = False\<rparr>"]
    handleKeydown_Home_End [of "loaded_page [] 0 800 800" "\<lparr>key = ''End'', defaultPrevented = False\<rparr>"]
  by (simp add: loaded_page_def five_slides_def preventDefault_def)

section \<open>Scroll notifications\<close>

lemma scroll_listeners_queue:
  "scroll_listeners st =
     st\<lparr>frameCallbacks := frameCallbacks st @
          (if upButton st = None \<or> downButton st = None then [SlideManagerFrame]
           else [SlideManagerFrame, SlideNavigationFrame])\<rparr>"
  by (simp add: scroll_listeners_def requestAnimationFrame_def Let_def)

lemma concat_replicate_snoc:
  "concat (replicate k xs) @ xs = concat (replicate (Suc k) xs)"
  by (induction k) simp_all

lemma scroll_listeners_burst:
  "(scroll_listeners ^^ k) st =
     st\<lparr>frameCallbacks := frameCallbacks st @
          concat (replicate k
            (if upButton st = None \<or> downButton st = None then [SlideManagerFrame]
             else [SlideManagerFrame, SlideNavigationFrame]))\<rparr>"
proof -
  define cbs where "cbs =
    (if upButton st = None \<or> downButton st = None then [SlideManagerFrame]
     else [SlideManagerFrame, SlideNavigationFrame])"
  have step: "scroll_listeners (st\<lparr>frameCallbacks := q\<rparr>) = st\<lparr>frameCallbacks := q @ cbs\<rparr>" for q
    by (simp add: scroll_listeners_queue cbs_def)
  have "(scroll_listeners ^^ k) st =
          st\<lparr>frameCallbacks := frameCallbacks st @ concat (replicate k cbs)\<rparr>"
  proof (induction k)
    case 0
    show ?case by simp
  next
    case (Suc k)
    have "(scroll_listeners ^^ Suc k) st = scroll_listeners ((scroll_listeners ^^ k) st)"
      by simp
    also have "\<dots> = st\<lparr>frameCallbacks := (frameCallbacks st @ concat (replicate k cbs)) @ cbs\<rparr>"
      by (simp only: Suc step)
    also have "\<dots> = st\<lparr>frameCallbacks := frameCallbacks st @ concat (replicate (Suc k) cbs)\<rparr>"
      by (simp only: append_assoc concat_replicate_snoc)
    finally show ?case .
  qed
  then show ?thesis by (simp only: cbs_def)
qed

lemma count_list_concat_replicate_two:
  "count_list (concat (replicate k [SlideManagerFrame, SlideNavigationFrame])) c = k"
  by (induction k) (cases c; simp)+

lemma count_list_replicate_same: "count_list (replicate k c) c = k"
  by (induction k) simp_all

text \<open>
  C9 (as amended). Every scroll notification requests its own animation-frame callback
  for the recomputation of progress and counter, and one more for the button states
  when both buttons exist; nothing merges them. Starting with no callback pending, a
  burst of \<open>k\<close> notifications before the next frame leaves \<open>k\<close> recomputation callbacks
  (and \<open>k\<close> button-state callbacks) pending, and the following animation-frame pass runs
  every one of them: the recomputation is deferred to the frame, once per notification.
\<close>

theorem scroll_burst_one_callback_per_event:
  assumes "frameCallbacks st = []"
  shows "frameCallbacks ((scroll_listeners ^^ k) st) =
           concat (replicate k
             (if upButton st = None \<or> downButton st = None then [SlideManagerFrame]
              else [SlideManagerFrame, SlideNavigationFrame])) \<and>
         count_list (frameCallbacks ((scroll_listeners ^^ k) st)) SlideManagerFrame = k \<and>
         (upButton st \<noteq> None \<and> downButton st \<noteq> None \<longrightarrow>
            count_list (frameCallbacks ((scroll_listeners ^^ k) st)) SlideNavigationFrame = k) \<and>
         animation_frame ((scroll_listeners ^^ k) st) =
           run_callbacks (frameCallbacks ((scroll_listeners ^^ k) st)) st"
proof (intro conjI impI)
  show "frameCallbacks ((scroll_listeners ^^ k) st) =
           concat (replicate k
             (if upButton st = None \<or> downButton st = None then [SlideManagerFrame]
              else [SlideManagerFrame, SlideNavigationFrame]))"
    using assms by (simp add: scroll_listeners_burst)
  show "count_list (frameCallbacks ((scroll_listeners ^^ k) st)) SlideManagerFrame = k"
    using assms
    by (simp add: scroll_listeners_burst count_list_concat_replicate_two
        count_list_replicate_same)
  show "count_list (frameCallbacks ((scroll_listeners ^^ k) st)) SlideNavigationFrame = k"
    if "upButton st \<noteq> None \<and> downButton st \<noteq> None"
    using assms that
    by (auto simp: scroll_listeners_burst count_list_concat_replicate_two)
  have "(scroll_listeners ^^ k) st\<lparr>frameCallbacks := []\<rparr> = st"
    using assms by (simp add: scroll_listeners_burst)
  then show "animation_frame ((scroll_listeners ^^ k) st) =
           run_callbacks (frameCallbacks ((scroll_listeners ^^ k) st)) st"
    by (simp add: animation_frame_def)
qed

theorem scroll_burst_one_callback_per_event_witness:
  "frameCallbacks (loaded_page five_slides 1600 800 4000) = [] \<and>
   count_list (frameCallbacks ((scroll_listeners ^^ 3) (loaded_page five_slides 1600 800 4000)))
     SlideManagerFrame = 3 \<and>
   count_list (frameCallbacks ((scroll_listeners ^^ 3) (loaded_page five_slides 1600 800 4000)))
     SlideNavigationFrame = 3"
  using scroll_burst_one_callback_per_event [of "loaded_page five_slides 1600 800 4000" 3]
  by (simp add: loaded_page_def numeral_3_eq_3)

text \<open>
  Two scroll notifications before a frame: the frame runs the recomputation of progress
  and counter twice, and the update of the button states twice.
\<close>

theorem scroll_burst_not_coalesced_counterexample:
  "frameCallbacks (scroll_listeners (scroll_listeners (loaded_page five_slides 1600 800 4000))) =
     [SlideManagerFrame, SlideNavigationFrame, SlideManagerFrame, SlideNavigationFrame] \<and>
   count_list
     (frameCallbacks (scroll_listeners (scroll_listeners (loaded_page five_slides 1600 800 4000))))
     SlideManagerFrame = 2 \<and>
   animation_frame (scroll_listeners (scroll_listeners (loaded_page five_slides 1600 800 4000))) =
     run_callbacks [SlideManagerFrame, SlideNavigationFrame, SlideManagerFrame, SlideNavigationFrame]
       (loaded_page five_slides 1600 800 4000)"
  by (simp add: loaded_page_def scroll_listeners_def requestAnimationFrame_def
      animation_frame_def)

end
